theory Spec2Isabelle
  imports Main "HOL-Library.Word" "HOL-Library.Multiset"
begin

section \<open>ctr run: mount flag parsing and the run action\<close>

text \<open>
  A shallow embedding of \<^verbatim>\<open>cmd/ctr/commands/run/run.go\<close>: the function
  \<^verbatim>\<open>parseMountFlag\<close> (lines 53-85) and the \<^verbatim>\<open>Action\<close> of the
  \<^verbatim>\<open>run\<close> command (lines 123-228). Strings are byte lists, as Go strings are.
\<close>

subsection \<open>Errors\<close>

text \<open>
  Every error value the two functions can return.
  \<^item> \<open>EOF\<close>, \<open>ParseError\<close>: what \<^verbatim>\<open>csv.Reader.Read\<close> returns (\<^verbatim>\<open>io.EOF\<close>, or a
    \<^verbatim>\<open>*csv.ParseError\<close> wrapping \<^verbatim>\<open>ErrBareQuote\<close> or \<^verbatim>\<open>ErrQuote\<close>; the line
    and column numbers it carries are left out).
  \<^item> \<open>Errorf fmt\<close>: \<^verbatim>\<open>fmt.Errorf(fmt)\<close> with no argument;
    \<open>Errorf_q fmt a\<close>: \<^verbatim>\<open>fmt.Errorf(fmt, a)\<close> where \<^verbatim>\<open>fmt\<close> has the one verb \<^verbatim>\<open>%q\<close>.
  \<^item> \<open>New msg\<close>: \<^verbatim>\<open>errors.New(msg)\<close>.
  \<^item> \<open>ExitError msg code\<close>: \<^verbatim>\<open>cli.NewExitError(msg, code)\<close>.
  \<^item> \<open>External n\<close>: an error made by a collaborator (client, console, task), opaque here.
\<close>

datatype csv_error = ErrBareQuote | ErrQuote

datatype error =
    EOF
  | ParseError csv_error
  | Errorf string
  | Errorf_q string string
  | New string
  | ExitError string int
  | External nat

abbreviation MalformedMountString :: error where
  "MalformedMountString \<equiv> Errorf ''invalid mount specification: expected key=val''"

abbreviation UnsupportedMountOption :: "string \<Rightarrow> error" where
  "UnsupportedMountOption key \<equiv> Errorf_q ''mount option %q not supported'' key"

subsection \<open>The record reader\<close>

text \<open>
  Modelled from the spec: the tokenizer \<^verbatim>\<open>csv.NewReader(strings.NewReader(m)).Read()\<close>
  is Go's standard library (\<^verbatim>\<open>encoding/csv\<close>), not a file of this repository. The spec
  asks for ``standard delimited-record tokenization'' on commas ``respecting quoting''.
  The definitions below follow the library's reader with its default settings (comma
  \<^verbatim>\<open>,\<close>, no comment character, no lazy quotes, no trimming): \<^verbatim>\<open>readLine\<close>, the loop
  skipping empty lines, and the field loop of \<^verbatim>\<open>readRecord\<close> with its quoted fields,
  which may span lines. Only the first record is read, as \<^verbatim>\<open>parseMountFlag\<close> does.
\<close>

abbreviation LF :: char where "LF \<equiv> CHR 0x0A"
abbreviation CR :: char where "CR \<equiv> CHR 0x0D"
abbreviation Comma :: char where "Comma \<equiv> CHR '',''"
abbreviation Quote :: char where "Quote \<equiv> CHR 0x22"

text \<open>\<^verbatim>\<open>bufio.Reader.ReadSlice('\n')\<close> on a string reader: the bytes up to and including the
  first line feed, the rest of the input, and whether the end of input was hit first.\<close>

definition ReadSlice :: "string \<Rightarrow> string \<times> string \<times> bool" where
  "ReadSlice input =
     (let pre = takeWhile (\<lambda>c. c \<noteq> LF) input; post = dropWhile (\<lambda>c. c \<noteq> LF) input
      in if post = [] then (pre, [], True) else (pre @ [LF], tl post, False))"

text \<open>\<^verbatim>\<open>readLine\<close>: the line, whether the error is \<^verbatim>\<open>io.EOF\<close>, and the rest of the input.
  A last line without line feed is no error; its trailing carriage return is dropped; a
  final \<^verbatim>\<open>\r\n\<close> becomes \<^verbatim>\<open>\n\<close>.\<close>

definition readLine :: "string \<Rightarrow> string \<times> bool \<times> string" where
  "readLine input =
     (case ReadSlice input of (line0, rest, eof) \<Rightarrow>
        let err = (if line0 \<noteq> [] \<and> eof then False else eof);
            line1 = (if line0 \<noteq> [] \<and> eof \<and> last line0 = CR then butlast line0 else line0);
            n = length line1;
            line2 = (if n \<ge> 2 \<and> line1 ! (n - 2) = CR \<and> line1 ! (n - 1) = LF
                     then take (n - 2) line1 @ [LF] else line1)
        in (line2, err, rest))"

definition lengthNL :: "string \<Rightarrow> nat" where
  "lengthNL b = (if b \<noteq> [] \<and> last b = LF then 1 else 0)"

lemma ReadSlice_concat: "ReadSlice input = (line, rest, eof) \<Longrightarrow> line @ rest = input"
proof -
  assume a: "ReadSlice input = (line, rest, eof)"
  let ?pre = "takeWhile (\<lambda>c. c \<noteq> LF) input" and ?post = "dropWhile (\<lambda>c. c \<noteq> LF) input"
  show ?thesis
  proof (cases "?post = []")
    case True
    with a have "line = ?pre" "rest = []"
      by (auto simp: ReadSlice_def Let_def split: if_splits)
    moreover from True have "?pre = input" by (metis append_Nil2 takeWhile_dropWhile_id)
    ultimately show ?thesis by simp
  next
    case False
    with a have l: "line = ?pre @ [LF]" and r: "rest = tl ?post"
      by (auto simp: ReadSlice_def Let_def split: if_splits)
    from False have "hd ?post = LF" using hd_dropWhile [of "\<lambda>c. c \<noteq> LF" input] by auto
    with False have "?post = LF # tl ?post" by (cases ?post) auto
    then have "?pre @ [LF] @ tl ?post = ?pre @ ?post" by simp
    then show ?thesis using l r by simp
  qed
qed

lemma ReadSlice_not_eof: "ReadSlice input = (line, rest, False) \<Longrightarrow> line \<noteq> []"
  by (auto simp: ReadSlice_def Let_def split: if_splits)

lemma readLine_length:
  assumes "readLine input = (line, err, rest)"
  shows "length line + length rest \<le> length input"
proof -
  obtain line0 eof where rs: "ReadSlice input = (line0, rest, eof)"
    using assms by (auto simp: readLine_def Let_def split: prod.splits)
  from ReadSlice_concat [OF rs] have "length line0 + length rest = length input"
    by (metis length_append)
  moreover from assms rs have "length line \<le> length line0"
    by (auto simp: readLine_def Let_def split: if_splits)
  ultimately show ?thesis by simp
qed

lemma readLine_progress:
  assumes "readLine input = (line, False, rest)"
  shows "length rest < length input"
proof -
  obtain line0 eof where rs: "ReadSlice input = (line0, rest, eof)"
    using assms by (auto simp: readLine_def Let_def split: prod.splits)
  from assms rs have "line0 \<noteq> []"
    by (cases eof) (auto simp: readLine_def Let_def dest: ReadSlice_not_eof split: if_splits)
  with ReadSlice_concat [OF rs] show ?thesis by (cases line0) auto
qed

text \<open>The first loop of \<^verbatim>\<open>readRecord\<close>: read lines until one is not empty or the input
  ends.\<close>

function skipEmptyLines :: "string \<Rightarrow> string \<times> bool \<times> string" where
  "skipEmptyLines input =
     (case readLine input of (line, errRead, rest) \<Rightarrow>
        if \<not> errRead \<and> length line = lengthNL line then skipEmptyLines rest
        else (line, errRead, rest))"
  by pat_completeness auto
termination
  by (relation "measure length") (auto dest: readLine_progress [OF sym])

lemma length_tl_dropWhile:
  "x \<in> set xs \<Longrightarrow> length (tl (dropWhile (\<lambda>c. c \<noteq> x) xs)) < length xs"
proof -
  assume "x \<in> set xs"
  then have "dropWhile (\<lambda>c. c \<noteq> x) xs \<noteq> []" by (simp add: dropWhile_eq_Nil_conv) 
  then have "length (tl (dropWhile (\<lambda>c. c \<noteq> x) xs)) < length (dropWhile (\<lambda>c. c \<noteq> x) xs)"
    by (cases "dropWhile (\<lambda>c. c \<noteq> x) xs") auto
  also have "\<dots> \<le> length xs" by (rule length_dropWhile_le)
  finally show ?thesis .
qed

lemma length_tl_tl_dropWhile:
  "x \<in> set xs \<Longrightarrow> length (tl (tl (dropWhile (\<lambda>c. c \<noteq> x) xs))) < length xs"
  using length_tl_dropWhile [of x xs] by (simp add: less_imp_diff_less)

text \<open>The field loop of \<^verbatim>\<open>readRecord\<close> (label \<^verbatim>\<open>parseField\<close>) and, inside it, the loop
  over a quoted field. \<open>line\<close> is what is left of the current line, \<open>input\<close> what is left
  of the reader, \<open>dst\<close> the fields so far, \<open>buf\<close> the quoted field so far.\<close>

function parseField :: "string \<Rightarrow> string \<Rightarrow> string list \<Rightarrow> error + string list"
  and quotedField :: "string \<Rightarrow> string \<Rightarrow> string \<Rightarrow> string list \<Rightarrow> error + string list"
  where
  "parseField line input dst =
     (if line = [] \<or> hd line \<noteq> Quote then
        (let found = (Comma \<in> set line);
             field = (if found then takeWhile (\<lambda>c. c \<noteq> Comma) line
                      else take (length line - lengthNL line) line)
         in if Quote \<in> set field then Inl (ParseError ErrBareQuote)
            else if found then
              parseField (tl (dropWhile (\<lambda>c. c \<noteq> Comma) line)) input (dst @ [field])
            else Inr (dst @ [field]))
      else quotedField (tl line) input [] dst)"
| "quotedField line input buf dst =
     (if Quote \<in> set line then
        (let buf' = buf @ takeWhile (\<lambda>c. c \<noteq> Quote) line;
             line' = tl (dropWhile (\<lambda>c. c \<noteq> Quote) line)
         in if line' \<noteq> [] \<and> hd line' = Quote then
              quotedField (tl line') input (buf' @ [Quote]) dst
            else if line' \<noteq> [] \<and> hd line' = Comma then
              parseField (tl line') input (dst @ [buf'])
            else if lengthNL line' = length line' then Inr (dst @ [buf'])
            else Inl (ParseError ErrQuote))
      else if line \<noteq> [] then
        (case readLine input of (line', errRead, rest) \<Rightarrow>
           quotedField line' rest (buf @ line) dst)
      else Inl (ParseError ErrQuote))"
  by pat_completeness auto

termination
proof (relation "measure (\<lambda>a. case a of Inl (line, input, dst) \<Rightarrow> length line + length input
                                    | Inr (line, input, buf, dst) \<Rightarrow> length line + length input)",
       goal_cases)
  case 1
  show ?case by simp
next
  case (2 line input dst found field)
  then show ?case using length_tl_dropWhile [of Comma line] by simp
next
  case (3 line input dst)
  then show ?case by (cases line) auto
next
  case (4 line input buf dst buf' line')
  then show ?case using length_tl_tl_dropWhile [of Quote line] by simp
next
  case (5 line input buf dst buf' line')
  then show ?case using length_tl_tl_dropWhile [of Quote line] by simp
next
  case (6 line input buf dst x y xa ya)
  then have "readLine input = (x, xa, ya)" by simp
  then have "length x + length ya \<le> length input" by (rule readLine_length)
  moreover from 6 have "line \<noteq> []" by simp
  ultimately show ?case by (cases line) auto
qed

text \<open>\<^verbatim>\<open>Reader.Read\<close> for the first record: \<^verbatim>\<open>io.EOF\<close> when the input holds no
  non-empty line, else the fields of the first non-empty line.\<close>

definition csv_Read :: "string \<Rightarrow> error + string list" where
  "csv_Read input =
     (case skipEmptyLines input of (line, errRead, rest) \<Rightarrow>
        if errRead then Inl EOF else parseField line rest [])"

subsection \<open>parseMountFlag\<close>

text \<open>\<^verbatim>\<open>strings.Split(s, sep)\<close> for a separator of one byte (\<^verbatim>\<open>"="\<close> and \<^verbatim>\<open>":"\<close> in the
  source): the pieces between the separators, one more piece than separators.\<close>

primrec Split :: "string \<Rightarrow> char \<Rightarrow> string list" where
  "Split [] sep = [[]]"
| "Split (c # cs) sep =
     (if c = sep then [] # Split cs sep
      else (c # hd (Split cs sep)) # tl (Split cs sep))"

text \<open>\<^verbatim>\<open>specs.Mount\<close> of the OCI runtime specification.\<close>

record Mount =
  Destination :: string
  Type :: string
  Source :: string
  Options :: "string list"

text \<open>\<^verbatim>\<open>specs.Mount{}\<close>: every field at its zero value.\<close>

definition Mount_zero :: Mount where
  "Mount_zero = \<lparr>Destination = [], Type = [], Source = [], Options = []\<rparr>"

text \<open>The loop over the fields (lines 62-82). An error return drops the mount built so
  far: the caller \<^verbatim>\<open>withMounts\<close> does not look at it.\<close>

fun parseFields :: "string list \<Rightarrow> Mount \<Rightarrow> error + Mount" where
  "parseFields [] mount = Inr mount"
| "parseFields (field # fields') mount =
     (let v = Split field (CHR ''='') in
      if length v \<noteq> 2 then Inl MalformedMountString
      else
        let key = v ! 0; val = v ! 1 in
        if key = ''type'' then parseFields fields' (mount\<lparr>Type := val\<rparr>)
        else if key = ''source'' \<or> key = ''src'' then parseFields fields' (mount\<lparr>Source := val\<rparr>)
        else if key = ''destination'' \<or> key = ''dst'' then
          parseFields fields' (mount\<lparr>Destination := val\<rparr>)
        else if key = ''options'' then
          parseFields fields' (mount\<lparr>Options := Split val (CHR '':'')\<rparr>)
        else Inl (UnsupportedMountOption key))"

definition parseMountFlag :: "string \<Rightarrow> error + Mount" where
  "parseMountFlag m =
     (case csv_Read m of
        Inl err \<Rightarrow> Inl err
      | Inr fields' \<Rightarrow> parseFields fields' Mount_zero)"

subsection \<open>The run action\<close>

text \<open>
  What \<^verbatim>\<open>Action\<close> reads from its \<^verbatim>\<open>*cli.Context\<close> to choose its path:
  \<^verbatim>\<open>Bool("tty")\<close>, \<^verbatim>\<open>Bool("detach")\<close>, \<^verbatim>\<open>IsSet("config")\<close>, \<^verbatim>\<open>Bool("rm")\<close>,
  \<^verbatim>\<open>IsSet("pid-file")\<close> and the positional arguments \<^verbatim>\<open>Args()\<close>. The other flags
  (\<^verbatim>\<open>fifo-dir\<close>, \<^verbatim>\<open>checkpoint\<close>, \<^verbatim>\<open>null-io\<close>, \<^verbatim>\<open>log-uri\<close>, the value of
  \<^verbatim>\<open>pid-file\<close>) are only handed on to the collaborators.
\<close>

record cli_Context =
  tty :: bool
  detach :: bool
  config :: bool
  rm :: bool
  pid_file :: bool
  Args :: "string list"

text \<open>\<^verbatim>\<open>Args().First()\<close> and \<^verbatim>\<open>Args().Get(n)\<close>: the empty string when there is no such
  argument.\<close>

definition Get :: "string list \<Rightarrow> nat \<Rightarrow> string" where
  "Get as n = (if n < length as then as ! n else [])"

definition First :: "string list \<Rightarrow> string" where
  "First as = Get as 0"

text \<open>\<^verbatim>\<open>containerd.ExitStatus\<close> as \<^verbatim>\<open>Result()\<close> reads it: the exit code (\<^verbatim>\<open>uint32\<close>)
  and the error.\<close>

record ExitStatus =
  code :: "32 word"
  err :: "error option"

text \<open>
  The collaborators are outside the file; a \<open>world\<close> fixes what each of their calls
  returns in one run (\<open>None\<close> is Go's \<^verbatim>\<open>nil\<close> error). \<open>statusC\<close> is what the channel
  returned by \<^verbatim>\<open>task.Wait\<close> delivers: \<open>None\<close> when nothing ever arrives, so that the
  receive at line 216 blocks for ever. \<open>Delete_err\<close> is the error of the
  \<^verbatim>\<open>task.Delete\<close> call at line 221; the results of the deferred calls are discarded by
  Go and have no field. No call panics in a \<open>world\<close>: a panic of a collaborator (as
  \<^verbatim>\<open>console.Current\<close> without a terminal) is outside the model.
\<close>

record world =
  NewClient_err :: "error option"
  NewContainer_err :: "error option"
  SetRaw_err :: "error option"
  NewTask_err :: "error option"
  Wait_err :: "error option"
  WritePidFile_err :: "error option"
  Start_err :: "error option"
  HandleConsoleResize_err :: "error option"
  statusC :: "ExitStatus option"
  Delete_err :: "error option"

text \<open>The calls \<^verbatim>\<open>Action\<close> makes to its collaborators, in the order of the source.\<close>

datatype call =
    NewClient              \<comment> \<open>\<^verbatim>\<open>commands.NewClient(context)\<close>, line 152\<close>
  | Cancel                 \<comment> \<open>\<^verbatim>\<open>cancel()\<close>, deferred at line 156\<close>
  | NewContainer           \<comment> \<open>\<^verbatim>\<open>NewContainer(ctx, client, context)\<close>, line 162\<close>
  | ContainerDelete        \<comment> \<open>\<^verbatim>\<open>container.Delete(ctx, WithSnapshotCleanup)\<close>, deferred at line 167\<close>
  | ConsoleCurrent         \<comment> \<open>\<^verbatim>\<open>console.Current()\<close>, line 171\<close>
  | ConsoleReset           \<comment> \<open>\<^verbatim>\<open>con.Reset()\<close>, deferred at line 172\<close>
  | ConsoleSetRaw          \<comment> \<open>\<^verbatim>\<open>con.SetRaw()\<close>, line 173\<close>
  | NewTask                \<comment> \<open>\<^verbatim>\<open>tasks.NewTask(...)\<close>, line 185\<close>
  | TaskDelete             \<comment> \<open>\<^verbatim>\<open>task.Delete(ctx)\<close>, deferred at line 191 and called at line 221\<close>
  | TaskWait               \<comment> \<open>\<^verbatim>\<open>task.Wait(ctx)\<close>, line 192\<close>
  | WritePidFile           \<comment> \<open>\<^verbatim>\<open>commands.WritePidFile(..., task.Pid())\<close>, line 197\<close>
  | TaskStart              \<comment> \<open>\<^verbatim>\<open>task.Start(ctx)\<close>, line 202\<close>
  | HandleConsoleResize    \<comment> \<open>\<^verbatim>\<open>tasks.HandleConsoleResize(ctx, task, con)\<close>, line 209\<close>
  | LogError               \<comment> \<open>\<^verbatim>\<open>logrus.WithError(err).Error("console resize")\<close>, line 210\<close>
  | ForwardAllSignals      \<comment> \<open>\<^verbatim>\<open>commands.ForwardAllSignals(ctx, task)\<close>, line 213\<close>
  | StopCatch              \<comment> \<open>\<^verbatim>\<open>commands.StopCatch(sigc)\<close>, deferred at line 214\<close>
  | Receive                \<comment> \<open>\<^verbatim>\<open>status := <-statusC\<close> receiving a status, line 216\<close>

text \<open>
  The state of a run: the calls made so far, oldest first, and the deferred calls, the
  last registered first (Go runs them in that order when the function returns).
\<close>

record frame =
  calls :: "call list"
  deferred :: "call list"

definition do_call :: "call \<Rightarrow> frame \<Rightarrow> frame" where
  "do_call c f = f\<lparr>calls := calls f @ [c]\<rparr>"

definition defer_call :: "call \<Rightarrow> frame \<Rightarrow> frame" where
  "defer_call c f = f\<lparr>deferred := c # deferred f\<rparr>"

text \<open>How a run ends: the function returns an error (\<open>None\<close> for \<^verbatim>\<open>nil\<close>), or it blocks
  for ever on the status channel.\<close>

datatype outcome = Returned "error option" | Blocked

record run =
  result :: outcome
  trace :: "call list"

text \<open>\<^verbatim>\<open>return e\<close>: the deferred calls run, last registered first, then the function
  returns \<open>e\<close>.\<close>

definition return :: "error option \<Rightarrow> frame \<Rightarrow> run" where
  "return e f = \<lparr>result = Returned e, trace = calls f @ deferred f\<rparr>"

definition block :: "frame \<Rightarrow> run" where
  "block f = \<lparr>result = Blocked, trace = calls f\<rparr>"

text \<open>\<^verbatim>\<open>int(code)\<close> for a \<^verbatim>\<open>uint32\<close>, with Go's \<^verbatim>\<open>int\<close> of 64 bits (the platforms
  containerd is released for): zero extension, read as a signed value.\<close>

definition int_of_uint32 :: "32 word \<Rightarrow> int" where
  "int_of_uint32 c = sint (ucast c :: 64 word)"

text \<open>Lines 216-227: receive the exit status, decode it, delete the task, map the code.\<close>

definition exit_handling :: "world \<Rightarrow> frame \<Rightarrow> run" where
  "exit_handling w f =
     (case statusC w of
        None \<Rightarrow> block f
      | Some status \<Rightarrow>
          let f = do_call Receive f in
          (case err status of
             Some e \<Rightarrow> return (Some e) f
           | None \<Rightarrow>
               let f = do_call TaskDelete f in
               (case Delete_err w of
                  Some e \<Rightarrow> return (Some e) f
                | None \<Rightarrow>
                    if code status \<noteq> 0
                    then return (Some (ExitError [] (int_of_uint32 (code status)))) f
                    else return None f)))"

text \<open>Lines 208-215: resize handling with a terminal (its error is logged only), signal
  forwarding without.\<close>

definition forwarding :: "cli_Context \<Rightarrow> world \<Rightarrow> frame \<Rightarrow> run" where
  "forwarding c w f =
     (if tty c then
        let f = do_call HandleConsoleResize f;
            f = (case HandleConsoleResize_err w of Some e \<Rightarrow> do_call LogError f | None \<Rightarrow> f)
        in exit_handling w f
      else
        let f = do_call ForwardAllSignals f;
            f = defer_call StopCatch f
        in exit_handling w f)"

text \<open>Lines 196-207: the pid file, the start, and the return of a detached run.\<close>

definition start :: "cli_Context \<Rightarrow> world \<Rightarrow> frame \<Rightarrow> run" where
  "start c w f =
     (let f = (if pid_file c then do_call WritePidFile f else f) in
      if pid_file c \<and> WritePidFile_err w \<noteq> None then return (WritePidFile_err w) f
      else
        let f = do_call TaskStart f in
        (case Start_err w of
           Some e \<Rightarrow> return (Some e) f
         | None \<Rightarrow> if detach c then return None f else forwarding c w f))"

text \<open>Lines 189-195: an attached run defers the deletion of the task and subscribes to
  its exit status.\<close>

definition wait :: "cli_Context \<Rightarrow> world \<Rightarrow> frame \<Rightarrow> run" where
  "wait c w f =
     (if \<not> detach c then
        let f = defer_call TaskDelete f;
            f = do_call TaskWait f
        in (case Wait_err w of
              Some e \<Rightarrow> return (Some e) f
            | None \<Rightarrow> start c w f)
      else start c w f)"

text \<open>Lines 169-188: the console in raw mode when a terminal is asked for, then the
  task.\<close>

definition console_and_task :: "cli_Context \<Rightarrow> world \<Rightarrow> frame \<Rightarrow> run" where
  "console_and_task c w f =
     (let f = (if tty c then do_call ConsoleSetRaw (defer_call ConsoleReset (do_call ConsoleCurrent f))
               else f) in
      if tty c \<and> SetRaw_err w \<noteq> None then return (SetRaw_err w) f
      else
        let f = do_call NewTask f in
        (case NewTask_err w of
           Some e \<Rightarrow> return (Some e) f
         | None \<Rightarrow> wait c w f))"

text \<open>Lines 152-168: the client, the container, and the deferred removal of the
  container.\<close>

definition client_and_container :: "cli_Context \<Rightarrow> world \<Rightarrow> frame \<Rightarrow> run" where
  "client_and_container c w f =
     (let f = do_call NewClient f in
      case NewClient_err w of
        Some e \<Rightarrow> return (Some e) f
      | None \<Rightarrow>
          let f = defer_call Cancel f;
              f = do_call NewContainer f
          in (case NewContainer_err w of
                Some e \<Rightarrow> return (Some e) f
              | None \<Rightarrow>
                  let f = (if rm c \<and> \<not> detach c then defer_call ContainerDelete f else f)
                  in console_and_task c w f))"

text \<open>Lines 124-149, then the rest: the positional arguments are checked before any
  call is made.\<close>

definition Action :: "cli_Context \<Rightarrow> world \<Rightarrow> run" where
  "Action c w =
     (let f = \<lparr>calls = [], deferred = []\<rparr>;
          id = (if config c then First (Args c) else Get (Args c) 1);
          ref = (if config c then [] else First (Args c))
      in
      if config c \<and> length (Args c) > 1 then
        return (Some (New ''with spec config file, only container id should be provided'')) f
      else if \<not> config c \<and> ref = [] then
        return (Some (New ''image ref must be provided'')) f
      else if id = [] then
        return (Some (New ''container id must be provided'')) f
      else client_and_container c w f)"

subsection \<open>Conditions on a run, and example runs\<close>

text \<open>The positional arguments pass the checks of lines 134-149.\<close>

definition args_ok :: "cli_Context \<Rightarrow> bool" where
  "args_ok c =
     (if config c then length (Args c) \<le> 1 \<and> First (Args c) \<noteq> []
      else First (Args c) \<noteq> [] \<and> Get (Args c) 1 \<noteq> [])"

text \<open>The conditions under which a run gets as far as a created container, a created
  task, and the call of \<^verbatim>\<open>task.Start\<close>: every earlier call returned no error.\<close>

definition container_made :: "cli_Context \<Rightarrow> world \<Rightarrow> bool" where
  "container_made c w \<longleftrightarrow> args_ok c \<and> NewClient_err w = None \<and> NewContainer_err w = None"

definition task_made :: "cli_Context \<Rightarrow> world \<Rightarrow> bool" where
  "task_made c w \<longleftrightarrow>
     container_made c w \<and> (tty c \<longrightarrow> SetRaw_err w = None) \<and> NewTask_err w = None"

definition start_called :: "cli_Context \<Rightarrow> world \<Rightarrow> bool" where
  "start_called c w \<longleftrightarrow>
     task_made c w \<and> (\<not> detach c \<longrightarrow> Wait_err w = None) \<and>
     (pid_file c \<longrightarrow> WritePidFile_err w = None)"

text \<open>The calls made before \<^verbatim>\<open>task.Start\<close>, and the calls deferred by then (last
  registered first), on the path where every call succeeds.\<close>

definition calls_before_start :: "cli_Context \<Rightarrow> call list" where
  "calls_before_start c =
     [NewClient, NewContainer] @ (if tty c then [ConsoleCurrent, ConsoleSetRaw] else []) @
     [NewTask] @ (if detach c then [] else [TaskWait]) @
     (if pid_file c then [WritePidFile] else [])"

definition deferred_at_start :: "cli_Context \<Rightarrow> call list" where
  "deferred_at_start c =
     (if detach c then [] else [TaskDelete]) @ (if tty c then [ConsoleReset] else []) @
     (if rm c \<and> \<not> detach c then [ContainerDelete] else []) @ [Cancel]"

text \<open>Example contexts (\<^verbatim>\<open>ctr run [--rm] [-t] [-d] [--pid-file f] img c1\<close>) and a world in
  which every call succeeds and the task exits with code \<open>n\<close>.\<close>

definition attached_rm :: cli_Context where
  "attached_rm =
     \<lparr>tty = False, detach = False, config = False, rm = True, pid_file = False,
      Args = [''img'', ''c1'']\<rparr>"

definition tty_rm :: cli_Context where
  "tty_rm =
     \<lparr>tty = True, detach = False, config = False, rm = True, pid_file = False,
      Args = [''img'', ''c1'']\<rparr>"

definition detached_tty :: cli_Context where
  "detached_tty =
     \<lparr>tty = True, detach = True, config = False, rm = True, pid_file = True,
      Args = [''img'', ''c1'']\<rparr>"

definition task_exits :: "32 word \<Rightarrow> world" where
  "task_exits n =
     \<lparr>NewClient_err = None, NewContainer_err = None, SetRaw_err = None, NewTask_err = None,
      Wait_err = None, WritePidFile_err = None, Start_err = None,
      HandleConsoleResize_err = None, statusC = Some \<lparr>code = n, err = None\<rparr>,
      Delete_err = None\<rparr>"

subsection \<open>Vocabulary for the claims about mount strings\<close>

text \<open>The keys \<^verbatim>\<open>parseMountFlag\<close> recognizes (the cases of its \<^verbatim>\<open>switch\<close>).\<close>

definition recognized :: "string set" where
  "recognized = {''type'', ''source'', ''src'', ''destination'', ''dst'', ''options''}"

text \<open>The text of a token before its first \<^verbatim>\<open>=\<close>, and the text after it.\<close>

definition key_of :: "string \<Rightarrow> string" where
  "key_of f = takeWhile (\<lambda>c. c \<noteq> CHR ''='') f"

definition val_of :: "string \<Rightarrow> string" where
  "val_of f = tl (dropWhile (\<lambda>c. c \<noteq> CHR ''='') f)"

text \<open>A token with exactly one \<^verbatim>\<open>=\<close> and a recognized key before it.\<close>

definition key_value :: "string \<Rightarrow> bool" where
  "key_value f \<longleftrightarrow> count_list f (CHR ''='') = 1 \<and> key_of f \<in> recognized"

text \<open>The value of the last token of \<open>fs\<close> whose key is in \<open>K\<close>, if there is one.\<close>

fun last_value :: "string set \<Rightarrow> string list \<Rightarrow> string option" where
  "last_value K [] = None"
| "last_value K (f # fs) =
     (case last_value K fs of
        Some v \<Rightarrow> Some v
      | None \<Rightarrow> if key_of f \<in> K then Some (val_of f) else None)"

text \<open>\<^verbatim>\<open>strings.Join(ts, ",")\<close>: the tokens written as one mount string.\<close>

fun Join :: "string list \<Rightarrow> string" where
  "Join [] = []"
| "Join [t] = t"
| "Join (t # ts) = t @ Comma # Join ts"

text \<open>A string free of the bytes the record reader treats specially (comma, double quote,
  line feed, carriage return), and a value that is also free of \<^verbatim>\<open>=\<close>: the values a
  mount string of the form \<^verbatim>\<open>type=T,source=S,destination=D,options=o1:o2\<close> is made of.\<close>

definition plain :: "string \<Rightarrow> bool" where
  "plain s \<longleftrightarrow> Comma \<notin> set s \<and> Quote \<notin> set s \<and> LF \<notin> set s \<and> CR \<notin> set s"

definition value_ok :: "string \<Rightarrow> bool" where
  "value_ok s \<longleftrightarrow> plain s \<and> CHR ''='' \<notin> set s"

subsection \<open>The run action, phase by phase\<close>

lemma int_of_uint32_eq: "int_of_uint32 c = uint c"
proof -
  have u: "uint (ucast c :: 64 word) = uint c"
    by (simp add: uint_up_ucast is_up)
  have "uint c < 2 ^ 32" using uint_lt2p [of c] by simp
  then have b: "uint c < 2 ^ 63" by simp
  have "0 \<le> uint c" by simp
  then have "- (2 ^ 63) \<le> uint c" by (simp add: order_trans [of _ 0])
  with b have "signed_take_bit 63 (uint c) = uint c"
    by (simp add: signed_take_bit_int_eq_self_iff)
  then show ?thesis by (simp add: int_of_uint32_def sint_uint u)
qed

lemmas frame_defs = return_def block_def do_call_def defer_call_def

lemmas run_defs = Action_def client_and_container_def console_and_task_def wait_def start_def
  forwarding_def exit_handling_def return_def block_def do_call_def defer_call_def Let_def
  First_def Get_def

lemma Action_ok:
  "args_ok c \<Longrightarrow> Action c w = client_and_container c w \<lparr>calls = [], deferred = []\<rparr>"
  by (auto simp: Action_def args_ok_def Let_def split: if_splits)

lemma Action_bad: "\<not> args_ok c \<Longrightarrow> trace (Action c w) = []"
  by (auto simp: Action_def args_ok_def Let_def return_def split: if_splits)

lemma client_and_container_ok:
  "NewClient_err w = None \<Longrightarrow> NewContainer_err w = None \<Longrightarrow>
   client_and_container c w f =
     console_and_task c w
       \<lparr>calls = calls f @ [NewClient, NewContainer],
        deferred = (if rm c \<and> \<not> detach c then [ContainerDelete] else []) @ Cancel # deferred f\<rparr>"
  by (cases f) (simp add: client_and_container_def frame_defs Let_def)

lemma client_and_container_bad:
  "NewClient_err w \<noteq> None \<or> NewContainer_err w \<noteq> None \<Longrightarrow>
   x \<in> set (trace (client_and_container c w f)) \<Longrightarrow>
   x \<in> set (calls f) \<union> set (deferred f) \<union> {NewClient, NewContainer, Cancel}"
  by (auto simp: client_and_container_def frame_defs Let_def split: option.splits)

lemma console_and_task_ok:
  "tty c \<longrightarrow> SetRaw_err w = None \<Longrightarrow> NewTask_err w = None \<Longrightarrow>
   console_and_task c w f =
     wait c w
       \<lparr>calls = calls f @ (if tty c then [ConsoleCurrent, ConsoleSetRaw] else []) @ [NewTask],
        deferred = (if tty c then [ConsoleReset] else []) @ deferred f\<rparr>"
  by (cases f) (simp add: console_and_task_def frame_defs Let_def)

lemma console_and_task_SetRaw:
  "tty c \<Longrightarrow> SetRaw_err w = Some e \<Longrightarrow>
   console_and_task c w f =
     \<lparr>result = Returned (Some e),
      trace = calls f @ [ConsoleCurrent, ConsoleSetRaw, ConsoleReset] @ deferred f\<rparr>"
  by (simp add: console_and_task_def frame_defs Let_def)

lemma console_and_task_no_tty:
  "\<not> tty c \<Longrightarrow> ConsoleSetRaw \<in> set (trace (console_and_task c w f)) \<Longrightarrow>
   ConsoleSetRaw \<in> set (calls f) \<union> set (deferred f) \<or> ConsoleSetRaw \<in> set (trace (wait c w (do_call NewTask f)))"
  by (auto simp: console_and_task_def frame_defs Let_def split: option.splits if_splits)

lemma console_and_task_bad:
  "(tty c \<and> SetRaw_err w \<noteq> None) \<or> NewTask_err w \<noteq> None \<Longrightarrow>
   x \<in> set (trace (console_and_task c w f)) \<Longrightarrow>
   x \<in> set (calls f) \<union> set (deferred f)
        \<union> {ConsoleCurrent, ConsoleSetRaw, ConsoleReset, NewTask}"
  by (auto simp: console_and_task_def frame_defs Let_def split: option.splits if_splits)

lemma wait_ok:
  "\<not> detach c \<longrightarrow> Wait_err w = None \<Longrightarrow>
   wait c w f =
     start c w
       \<lparr>calls = calls f @ (if detach c then [] else [TaskWait]),
        deferred = (if detach c then [] else [TaskDelete]) @ deferred f\<rparr>"
  by (cases f) (simp add: wait_def frame_defs Let_def)

lemma wait_bad:
  "\<not> detach c \<Longrightarrow> Wait_err w \<noteq> None \<Longrightarrow> x \<in> set (trace (wait c w f)) \<Longrightarrow>
   x \<in> set (calls f) \<union> set (deferred f) \<union> {TaskWait, TaskDelete}"
  by (auto simp: wait_def frame_defs Let_def split: option.splits)

lemma start_ok:
  "pid_file c \<longrightarrow> WritePidFile_err w = None \<Longrightarrow> Start_err w = None \<Longrightarrow>
   start c w f =
     (let f' = \<lparr>calls = calls f @ (if pid_file c then [WritePidFile] else []) @ [TaskStart],
                deferred = deferred f\<rparr>
      in if detach c then \<lparr>result = Returned None, trace = calls f' @ deferred f'\<rparr>
         else forwarding c w f')"
  by (cases f) (simp add: start_def frame_defs Let_def)

lemma start_bad_pid:
  "pid_file c \<Longrightarrow> WritePidFile_err w \<noteq> None \<Longrightarrow>
   trace (start c w f) = calls f @ [WritePidFile] @ deferred f"
  by (auto simp: start_def frame_defs Let_def)

lemma start_bad_start:
  "pid_file c \<longrightarrow> WritePidFile_err w = None \<Longrightarrow> Start_err w \<noteq> None \<Longrightarrow>
   trace (start c w f) = calls f @ (if pid_file c then [WritePidFile] else []) @ [TaskStart] @ deferred f"
  by (auto simp: start_def frame_defs Let_def)

lemma forwarding_eq:
  "forwarding c w f =
     exit_handling w
       \<lparr>calls = calls f @
          (if tty c then HandleConsoleResize #
               (case HandleConsoleResize_err w of Some e \<Rightarrow> [LogError] | None \<Rightarrow> [])
           else [ForwardAllSignals]),
        deferred = (if tty c then [] else [StopCatch]) @ deferred f\<rparr>"
  by (cases f) (simp add: forwarding_def frame_defs Let_def split: option.splits)

lemma exit_handling_trace:
  "trace (exit_handling w f) =
     calls f @
       (case statusC w of None \<Rightarrow> []
        | Some st \<Rightarrow> Receive # (if err st = None then [TaskDelete] else []) @ deferred f)"
  by (simp add: exit_handling_def frame_defs Let_def split: option.splits)

lemma exit_handling_result:
  "result (exit_handling w f) =
     (case statusC w of None \<Rightarrow> Blocked
      | Some st \<Rightarrow>
          Returned
            (case err st of Some e \<Rightarrow> Some e
             | None \<Rightarrow>
                 (case Delete_err w of Some e \<Rightarrow> Some e
                  | None \<Rightarrow>
                      if code st \<noteq> 0 then Some (ExitError [] (int_of_uint32 (code st)))
                      else None)))"
  by (simp add: exit_handling_def frame_defs Let_def split: option.splits)

lemma Action_container_made:
  assumes "container_made c w"
  shows "Action c w =
     console_and_task c w
       \<lparr>calls = [NewClient, NewContainer],
        deferred = (if rm c \<and> \<not> detach c then [ContainerDelete] else []) @ [Cancel]\<rparr>"
  using assms by (simp add: container_made_def Action_ok client_and_container_ok)

lemma Action_not_container_made:
  assumes "\<not> container_made c w" "x \<in> set (trace (Action c w))"
  shows "x \<in> {NewClient, NewContainer, Cancel}"
proof (cases "args_ok c")
  case False
  with assms(2) show ?thesis by (simp add: Action_bad)
next
  case True
  with assms(1) have bad: "NewClient_err w \<noteq> None \<or> NewContainer_err w \<noteq> None"
    by (auto simp: container_made_def)
  from assms(2) True have "x \<in> set (trace (client_and_container c w \<lparr>calls = [], deferred = []\<rparr>))"
    by (simp add: Action_ok)
  from client_and_container_bad [OF bad this] show ?thesis by simp
qed

lemma Action_task_made:
  assumes "task_made c w"
  shows "Action c w =
     wait c w
       \<lparr>calls = [NewClient, NewContainer] @
                (if tty c then [ConsoleCurrent, ConsoleSetRaw] else []) @ [NewTask],
        deferred = (if tty c then [ConsoleReset] else []) @
                   (if rm c \<and> \<not> detach c then [ContainerDelete] else []) @ [Cancel]\<rparr>"
  using assms by (simp add: task_made_def Action_container_made console_and_task_ok)

lemma Action_not_task_made:
  assumes "\<not> task_made c w" "x \<in> set (trace (Action c w))"
  shows "x \<in> {NewClient, NewContainer, Cancel, ContainerDelete,
         ConsoleCurrent, ConsoleSetRaw, ConsoleReset, NewTask}"
proof (cases "container_made c w")
  case False
  from Action_not_container_made [OF this assms(2)] show ?thesis by auto
next
  case True
  with assms(1) have bad: "(tty c \<and> SetRaw_err w \<noteq> None) \<or> NewTask_err w \<noteq> None"
    by (auto simp: task_made_def)
  from assms(2) have "x \<in> set (trace (console_and_task c w
       \<lparr>calls = [NewClient, NewContainer],
        deferred = (if rm c \<and> \<not> detach c then [ContainerDelete] else []) @ [Cancel]\<rparr>))"
    by (simp only: Action_container_made [OF True])
  from console_and_task_bad [OF bad this] show ?thesis
    by (auto split: if_splits)
qed

lemma Action_start_called:
  assumes "start_called c w"
  shows "Action c w =
     (case Start_err w of
        Some e \<Rightarrow> \<lparr>result = Returned (Some e),
                   trace = calls_before_start c @ [TaskStart] @ deferred_at_start c\<rparr>
      | None \<Rightarrow>
          if detach c
          then \<lparr>result = Returned None,
                trace = calls_before_start c @ [TaskStart] @ deferred_at_start c\<rparr>
          else forwarding c w
                 \<lparr>calls = calls_before_start c @ [TaskStart], deferred = deferred_at_start c\<rparr>)"
proof -
  from assms have tm: "task_made c w" and wt: "\<not> detach c \<longrightarrow> Wait_err w = None"
    and pf: "pid_file c \<longrightarrow> WritePidFile_err w = None"
    by (simp_all add: start_called_def)
  show ?thesis
  proof (cases "Start_err w")
    case None
    with pf show ?thesis
      by (simp add: Action_task_made [OF tm] wait_ok [OF wt] start_ok
                    calls_before_start_def deferred_at_start_def)
  next
    case (Some e)
    with pf show ?thesis
      by (simp add: Action_task_made [OF tm] wait_ok [OF wt] start_def frame_defs
                    calls_before_start_def deferred_at_start_def)
  qed
qed

lemma Action_not_start_called:
  assumes "\<not> start_called c w" "x \<in> set (trace (Action c w))"
  shows "x \<in> {NewClient, NewContainer, Cancel, ContainerDelete, ConsoleCurrent,
              ConsoleSetRaw, ConsoleReset, NewTask, TaskWait, TaskDelete, WritePidFile}"
proof (cases "task_made c w")
  case False
  from Action_not_task_made [OF this assms(2)] show ?thesis by auto
next
  case tm: True
  let ?f = "\<lparr>calls = [NewClient, NewContainer] @
                (if tty c then [ConsoleCurrent, ConsoleSetRaw] else []) @ [NewTask],
        deferred = (if tty c then [ConsoleReset] else []) @
                   (if rm c \<and> \<not> detach c then [ContainerDelete] else []) @ [Cancel]\<rparr>"
  from assms(2) have mem: "x \<in> set (trace (wait c w ?f))"
    by (simp only: Action_task_made [OF tm])
  show ?thesis
  proof (cases "\<not> detach c \<and> Wait_err w \<noteq> None")
    case True
    then have "\<not> detach c" "Wait_err w \<noteq> None" by simp_all
    from wait_bad [OF this mem] show ?thesis
      by (auto split: if_splits)
  next
    case False
    then have wt: "\<not> detach c \<longrightarrow> Wait_err w = None" by blast
    with assms(1) tm have "pid_file c" "WritePidFile_err w \<noteq> None"
      by (auto simp: start_called_def)
    from start_bad_pid [OF this] mem show ?thesis
      by (auto simp: wait_ok [OF wt] split: if_splits)
  qed
qed

lemma TaskStart_iff: "TaskStart \<in> set (trace (Action c w)) \<longleftrightarrow> start_called c w"
proof
  assume "TaskStart \<in> set (trace (Action c w))"
  then show "start_called c w" using Action_not_start_called [of c w TaskStart] by auto
next
  assume "start_called c w"
  from Action_start_called [OF this] show "TaskStart \<in> set (trace (Action c w))"
    by (simp add: forwarding_eq exit_handling_trace split: option.splits)
qed

lemma TaskStart_notin_before: "TaskStart \<notin> set (calls_before_start c)"
  by (simp add: calls_before_start_def)

lemma Action_exit_handling:
  assumes "start_called c w" "Start_err w = None" "\<not> detach c"
  shows "Action c w =
     exit_handling w
       \<lparr>calls = calls_before_start c @ [TaskStart] @
          (if tty c then HandleConsoleResize #
               (case HandleConsoleResize_err w of Some e \<Rightarrow> [LogError] | None \<Rightarrow> [])
           else [ForwardAllSignals]),
        deferred = (if tty c then [] else [StopCatch]) @ deferred_at_start c\<rparr>"
  using assms by (simp add: Action_start_called forwarding_eq)

lemma Receive_reached:
  assumes "Receive \<in> set (trace (Action c w))"
  shows "start_called c w \<and> Start_err w = None \<and> \<not> detach c"
proof -
  have sc: "start_called c w"
    using Action_not_start_called [of c w Receive] assms by auto
  from Action_start_called [OF sc] assms show ?thesis using sc
    by (auto simp: calls_before_start_def deferred_at_start_def split: option.splits if_splits)
qed

lemma start_calls:
  assumes "x \<in> set (trace (start c w f))"
  shows "x \<in> set (calls f) \<union> set (deferred f) \<union>
           {WritePidFile, TaskStart, HandleConsoleResize, LogError, ForwardAllSignals,
            StopCatch, Receive, TaskDelete}"
proof (cases "pid_file c \<and> WritePidFile_err w \<noteq> None")
  case True
  then have "pid_file c" "WritePidFile_err w \<noteq> None" by simp_all
  from start_bad_pid [OF this] assms show ?thesis by auto
next
  case False
  then have pf: "pid_file c \<longrightarrow> WritePidFile_err w = None" by blast
  show ?thesis
  proof (cases "Start_err w")
    case None
    from start_ok [OF pf None] assms show ?thesis
      by (auto simp: forwarding_eq exit_handling_trace Let_def split: if_splits option.splits)
  next
    case (Some e)
    then have "Start_err w \<noteq> None" by simp
    from start_bad_start [OF pf this] assms show ?thesis by (auto split: if_splits)
  qed
qed

lemma wait_calls:
  assumes "x \<in> set (trace (wait c w f))"
  shows "x \<in> set (calls f) \<union> set (deferred f) \<union>
           {TaskWait, WritePidFile, TaskStart, HandleConsoleResize, LogError,
            ForwardAllSignals, StopCatch, Receive, TaskDelete}"
proof (cases "\<not> detach c \<and> Wait_err w \<noteq> None")
  case True
  then have "\<not> detach c" "Wait_err w \<noteq> None" by simp_all
  from wait_bad [OF this assms] show ?thesis by auto
next
  case False
  then have wt: "\<not> detach c \<longrightarrow> Wait_err w = None" by blast
  from assms have "x \<in> set (trace (start c w
       \<lparr>calls = calls f @ (if detach c then [] else [TaskWait]),
        deferred = (if detach c then [] else [TaskDelete]) @ deferred f\<rparr>))"
    by (simp only: wait_ok [OF wt])
  from start_calls [OF this] show ?thesis by (auto split: if_splits)
qed

lemma SetRaw_called:
  assumes "ConsoleSetRaw \<in> set (trace (Action c w))"
  shows "container_made c w \<and> tty c"
proof -
  have cm: "container_made c w"
    using Action_not_container_made [of c w ConsoleSetRaw] assms by auto
  have "tty c"
  proof (rule ccontr)
    assume nt: "\<not> tty c"
    let ?f = "\<lparr>calls = [NewClient, NewContainer],
        deferred = (if rm c \<and> \<not> detach c then [ContainerDelete] else []) @ [Cancel]\<rparr>"
    from assms have "ConsoleSetRaw \<in> set (trace (console_and_task c w ?f))"
      by (simp only: Action_container_made [OF cm])
    from console_and_task_no_tty [OF nt this]
    have "ConsoleSetRaw \<in> set (trace (wait c w (do_call NewTask ?f)))"
      by (auto split: if_splits)
    from wait_calls [OF this] show False
      by (auto simp: do_call_def split: if_splits)
  qed
  with cm show ?thesis by simp
qed

lemma first_occurrence_prefix:
  assumes "xs @ a # ys = pre @ a # post" and "a \<notin> set xs"
  shows "set xs \<subseteq> set pre"
proof -
  from assms(1) obtain us where
    "(xs = pre @ us \<and> us @ a # ys = a # post) \<or> (xs @ us = pre \<and> a # ys = us @ a # post)"
    by (auto simp: append_eq_append_conv2)
  then show ?thesis
  proof
    assume a: "xs = pre @ us \<and> us @ a # ys = a # post"
    with assms(2) have "us = []" by (cases us) auto
    with a show ?thesis by simp
  next
    assume "xs @ us = pre \<and> a # ys = us @ a # post"
    then show ?thesis by auto
  qed
qed

lemma trace_attached_rm:
  "trace (Action attached_rm (task_exits n)) =
     [NewClient, NewContainer, NewTask, TaskWait, TaskStart, ForwardAllSignals, Receive,
      TaskDelete, StopCatch, TaskDelete, ContainerDelete, Cancel]"
  by (simp add: run_defs attached_rm_def task_exits_def)

lemma trace_attached_rm_Delete_err:
  "trace (Action attached_rm (task_exits n\<lparr>Delete_err := Some e\<rparr>)) =
     [NewClient, NewContainer, NewTask, TaskWait, TaskStart, ForwardAllSignals, Receive,
      TaskDelete, StopCatch, TaskDelete, ContainerDelete, Cancel]"
  by (simp add: run_defs attached_rm_def task_exits_def)

lemma trace_SetRaw_fails:
  "trace (Action tty_rm (task_exits n\<lparr>SetRaw_err := Some e\<rparr>)) =
     [NewClient, NewContainer, ConsoleCurrent, ConsoleSetRaw, ConsoleReset, ContainerDelete,
      Cancel]"
  by (simp add: run_defs tty_rm_def task_exits_def)

lemma trace_detached_tty:
  "trace (Action detached_tty (task_exits n)) =
     [NewClient, NewContainer, ConsoleCurrent, ConsoleSetRaw, NewTask, WritePidFile, TaskStart,
      ConsoleReset, Cancel]"
  by (simp add: run_defs detached_tty_def task_exits_def)

subsection \<open>Claims about the run action\<close>




text \<open>
  Counterexample to claim C2 as stated. With a terminal asked for and \<^verbatim>\<open>SetRaw\<close> failing,
  the container (the instance) has already been created: \<^verbatim>\<open>NewContainer\<close> is called at
  line 162, before the console is touched at lines 171-173.
\<close>

theorem SetRaw_failure_counterexample:
  "tty tty_rm \<and>
   ConsoleSetRaw \<in> set (trace (Action tty_rm (task_exits 0\<lparr>SetRaw_err := Some (External 1)\<rparr>))) \<and>
   SetRaw_err (task_exits 0\<lparr>SetRaw_err := Some (External 1)\<rparr>) = Some (External 1) \<and>
   NewContainer \<in> set (trace (Action tty_rm (task_exits 0\<lparr>SetRaw_err := Some (External 1)\<rparr>)))"
  by (simp add: trace_SetRaw_fails) (simp add: tty_rm_def task_exits_def)

text \<open>
  Claim C2, amended. For every run in which \<^verbatim>\<open>SetRaw\<close> is called and fails, a terminal
  was asked for, the run returns the error of \<^verbatim>\<open>SetRaw\<close>, and its calls are exactly:
  client creation, instance creation (once, before the console), \<^verbatim>\<open>console.Current\<close>,
  \<^verbatim>\<open>SetRaw\<close>, the console reset, the deletion of the created instance if and only if
  \<open>rm\<close> is set and the run is attached, and \<^verbatim>\<open>cancel\<close>. No task is created.
\<close>

theorem SetRaw_failure:
  assumes "ConsoleSetRaw \<in> set (trace (Action c w))" and "SetRaw_err w = Some e"
  shows "tty c \<and> result (Action c w) = Returned (Some e) \<and>
         trace (Action c w) =
           [NewClient, NewContainer, ConsoleCurrent, ConsoleSetRaw, ConsoleReset] @
           (if rm c \<and> \<not> detach c then [ContainerDelete] else []) @ [Cancel]"
proof -
  from SetRaw_called [OF assms(1)] have cm: "container_made c w" and t: "tty c" by simp_all
  show ?thesis using t
    by (simp add: Action_container_made [OF cm] console_and_task_SetRaw [OF t assms(2)])
qed

theorem SetRaw_failure_witness:
  "ConsoleSetRaw \<in> set (trace (Action tty_rm (task_exits 0\<lparr>SetRaw_err := Some (External 1)\<rparr>))) \<and>
   SetRaw_err (task_exits 0\<lparr>SetRaw_err := Some (External 1)\<rparr>) = Some (External 1) \<and>
   result (Action tty_rm (task_exits 0\<lparr>SetRaw_err := Some (External 1)\<rparr>))
     = Returned (Some (External 1)) \<and>
   trace (Action tty_rm (task_exits 0\<lparr>SetRaw_err := Some (External 1)\<rparr>)) =
     [NewClient, NewContainer, ConsoleCurrent, ConsoleSetRaw, ConsoleReset, ContainerDelete,
      Cancel]"
proof -
  let ?w = "task_exits 0\<lparr>SetRaw_err := Some (External 1)\<rparr>"
  have h: "ConsoleSetRaw \<in> set (trace (Action tty_rm ?w))" "SetRaw_err ?w = Some (External 1)"
    by (simp_all add: trace_SetRaw_fails)
  from SetRaw_failure [OF h] h show ?thesis by (simp add: tty_rm_def)
qed

text \<open>
  Claim C3. For every run with \<open>detach\<close> set in which \<^verbatim>\<open>task.Start\<close> is called and
  succeeds, the run returns success, it never calls \<^verbatim>\<open>task.Wait\<close>, signal forwarding,
  resize handling or \<^verbatim>\<open>task.Delete\<close>, and it returns immediately after the start: from
  the start call on, the trace holds only the calls deferred earlier (the console reset
  when a terminal was asked for, and \<^verbatim>\<open>cancel\<close>).
\<close>

theorem detached_start:
  assumes "detach c" and "TaskStart \<in> set (trace (Action c w))" and "Start_err w = None"
  shows "result (Action c w) = Returned None \<and>
         TaskWait \<notin> set (trace (Action c w)) \<and>
         ForwardAllSignals \<notin> set (trace (Action c w)) \<and>
         HandleConsoleResize \<notin> set (trace (Action c w)) \<and>
         TaskDelete \<notin> set (trace (Action c w)) \<and>
         dropWhile (\<lambda>x. x \<noteq> TaskStart) (trace (Action c w)) =
           TaskStart # (if tty c then [ConsoleReset] else []) @ [Cancel]"
proof -
  from assms(2) have sc: "start_called c w" by (simp add: TaskStart_iff)
  show ?thesis using assms(1,3)
    by (simp add: Action_start_called [OF sc] calls_before_start_def deferred_at_start_def)
qed

theorem detached_start_witness:
  "detach detached_tty \<and> TaskStart \<in> set (trace (Action detached_tty (task_exits 0))) \<and>
   Start_err (task_exits 0) = None \<and>
   result (Action detached_tty (task_exits 0)) = Returned None \<and>
   TaskWait \<notin> set (trace (Action detached_tty (task_exits 0))) \<and>
   TaskDelete \<notin> set (trace (Action detached_tty (task_exits 0))) \<and>
   dropWhile (\<lambda>x. x \<noteq> TaskStart) (trace (Action detached_tty (task_exits 0))) =
     [TaskStart, ConsoleReset, Cancel]"
proof -
  have h: "detach detached_tty" "TaskStart \<in> set (trace (Action detached_tty (task_exits 0)))"
    "Start_err (task_exits 0) = None"
    by (simp_all add: trace_detached_tty) (simp_all add: detached_tty_def task_exits_def)
  from detached_start [OF h] h show ?thesis by (simp add: detached_tty_def)
qed

text \<open>
  Counterexample to claim C7 as stated. In an attached run whose task exits with code 3,
  when the \<^verbatim>\<open>task.Delete\<close> call at line 221 fails, the outcome is the error of that call,
  not an exit error carrying 3.
\<close>

theorem exit_nonzero_counterexample:
  "\<not> detach attached_rm \<and>
   Receive \<in> set (trace (Action attached_rm (task_exits 3\<lparr>Delete_err := Some (External 1)\<rparr>))) \<and>
   statusC (task_exits 3\<lparr>Delete_err := Some (External 1)\<rparr>) = Some \<lparr>code = 3, err = None\<rparr> \<and>
   (3 :: 32 word) \<noteq> 0 \<and>
   result (Action attached_rm (task_exits 3\<lparr>Delete_err := Some (External 1)\<rparr>))
     = Returned (Some (External 1)) \<and>
   result (Action attached_rm (task_exits 3\<lparr>Delete_err := Some (External 1)\<rparr>))
     \<noteq> Returned (Some (ExitError [] 3))"
  by (simp add: trace_attached_rm_Delete_err)
     (simp add: run_defs attached_rm_def task_exits_def)

text \<open>
  Claim C7, amended. For every attached run that receives an exit status with a non-zero
  code \<open>N\<close> and no error, and whose \<^verbatim>\<open>task.Delete\<close> call at line 221 succeeds, the
  outcome is the error \<^verbatim>\<open>cli.NewExitError("", N)\<close>: the numeric code \<open>N\<close> and an empty
  message.
\<close>

theorem exit_nonzero_error:
  assumes "\<not> detach c" and "Receive \<in> set (trace (Action c w))"
    and "statusC w = Some \<lparr>code = N, err = None\<rparr>" and "N \<noteq> 0" and "Delete_err w = None"
  shows "result (Action c w) = Returned (Some (ExitError [] (uint N)))"
proof -
  from Receive_reached [OF assms(2)]
  have "start_called c w" "Start_err w = None" "\<not> detach c" by simp_all
  note eq = Action_exit_handling [OF this]
  show ?thesis using assms(3-)
    by (simp add: eq exit_handling_result int_of_uint32_eq)
qed

theorem exit_nonzero_error_witness:
  "\<not> detach attached_rm \<and> Receive \<in> set (trace (Action attached_rm (task_exits 3))) \<and>
   statusC (task_exits 3) = Some \<lparr>code = 3, err = None\<rparr> \<and> (3 :: 32 word) \<noteq> 0 \<and>
   Delete_err (task_exits 3) = None \<and>
   result (Action attached_rm (task_exits 3)) = Returned (Some (ExitError [] 3))"
proof -
  have h: "\<not> detach attached_rm" "Receive \<in> set (trace (Action attached_rm (task_exits 3)))"
    "statusC (task_exits 3) = Some \<lparr>code = 3, err = None\<rparr>" "(3 :: 32 word) \<noteq> 0"
    "Delete_err (task_exits 3) = None"
    by (simp_all add: trace_attached_rm) (simp_all add: attached_rm_def task_exits_def)
  from exit_nonzero_error [OF h] h show ?thesis by simp
qed

text \<open>
  Claim C8. For every attached run in which the exit status decodes without error (with
  any code \<open>N\<close>, zero or not) and the \<^verbatim>\<open>task.Delete\<close> call at line 221 fails with
  error \<open>e\<close>, the outcome of the run is \<open>e\<close>.
\<close>

theorem delete_error_overrides:
  assumes "\<not> detach c" and "Receive \<in> set (trace (Action c w))"
    and "statusC w = Some \<lparr>code = N, err = None\<rparr>" and "Delete_err w = Some e"
  shows "result (Action c w) = Returned (Some e)"
proof -
  from Receive_reached [OF assms(2)]
  have "start_called c w" "Start_err w = None" "\<not> detach c" by simp_all
  note eq = Action_exit_handling [OF this]
  show ?thesis using assms(3-)
    by (simp add: eq exit_handling_result)
qed

theorem delete_error_overrides_witness:
  "\<not> detach attached_rm \<and>
   Receive \<in> set (trace (Action attached_rm (task_exits 3\<lparr>Delete_err := Some (External 1)\<rparr>))) \<and>
   statusC (task_exits 3\<lparr>Delete_err := Some (External 1)\<rparr>) = Some \<lparr>code = 3, err = None\<rparr> \<and>
   Delete_err (task_exits 3\<lparr>Delete_err := Some (External 1)\<rparr>) = Some (External 1) \<and>
   result (Action attached_rm (task_exits 3\<lparr>Delete_err := Some (External 1)\<rparr>))
     = Returned (Some (External 1))"
proof -
  let ?w = "task_exits 3\<lparr>Delete_err := Some (External 1)\<rparr>"
  have h: "\<not> detach attached_rm" "Receive \<in> set (trace (Action attached_rm ?w))"
    "statusC ?w = Some \<lparr>code = 3, err = None\<rparr>" "Delete_err ?w = Some (External 1)"
    by (simp_all add: trace_attached_rm_Delete_err) (simp_all add: attached_rm_def task_exits_def)
  from delete_error_overrides [OF h] h show ?thesis by simp
qed

text \<open>
  Claim C10. For every attached run, wherever \<^verbatim>\<open>task.Start\<close> occurs in the trace,
  \<^verbatim>\<open>task.Wait\<close> has been called before it and has returned no error: the subscription
  to the exit status is established before the task is started.
\<close>

theorem wait_before_start:
  assumes "\<not> detach c" and "trace (Action c w) = pre @ TaskStart # post"
  shows "TaskWait \<in> set pre \<and> Wait_err w = None"
proof -
  from assms(2) have "TaskStart \<in> set (trace (Action c w))" by simp
  then have sc: "start_called c w" by (simp add: TaskStart_iff)
  with assms(1) have ok: "Wait_err w = None" by (simp add: start_called_def)
  from Action_start_called [OF sc] assms(1)
  obtain ys where "trace (Action c w) = calls_before_start c @ TaskStart # ys"
    by (cases "Start_err w") (auto simp: forwarding_eq exit_handling_trace)
  with assms(2) have "calls_before_start c @ TaskStart # ys = pre @ TaskStart # post" by simp
  from first_occurrence_prefix [OF this TaskStart_notin_before]
  have "set (calls_before_start c) \<subseteq> set pre" .
  moreover from assms(1) have "TaskWait \<in> set (calls_before_start c)"
    by (simp add: calls_before_start_def)
  ultimately have "TaskWait \<in> set pre" by blast
  with ok show ?thesis by simp
qed

theorem wait_before_start_witness:
  "\<not> detach attached_rm \<and>
   trace (Action attached_rm (task_exits 0)) =
     [NewClient, NewContainer, NewTask, TaskWait] @ TaskStart #
     [ForwardAllSignals, Receive, TaskDelete, StopCatch, TaskDelete, ContainerDelete, Cancel] \<and>
   TaskWait \<in> set [NewClient, NewContainer, NewTask, TaskWait] \<and>
   Wait_err (task_exits 0) = None"
proof -
  have h: "\<not> detach attached_rm"
    "trace (Action attached_rm (task_exits 0)) =
     [NewClient, NewContainer, NewTask, TaskWait] @ TaskStart #
     [ForwardAllSignals, Receive, TaskDelete, StopCatch, TaskDelete, ContainerDelete, Cancel]"
    by (simp_all add: trace_attached_rm) (simp add: attached_rm_def)
  from wait_before_start [OF h] h show ?thesis by simp
qed

subsection \<open>The mount parser, token by token\<close>

lemma Split_not_Nil: "Split s sep \<noteq> []"
  by (induction s) auto

lemma length_Split: "length (Split s sep) = Suc (count_list s sep)"
  by (induction s) (auto simp: Split_not_Nil)

lemma Split_no_sep: "sep \<notin> set s \<Longrightarrow> Split s sep = [s]"
  by (induction s) auto

lemma Split_append: "sep \<notin> set a \<Longrightarrow> Split (a @ sep # b) sep = a # Split b sep"
  by (induction a) auto

lemma split_at_first:
  "sep \<in> set s \<Longrightarrow>
   s = takeWhile (\<lambda>c. c \<noteq> sep) s @ sep # tl (dropWhile (\<lambda>c. c \<noteq> sep) s)"
  by (induction s) auto

lemma Split_one:
  assumes "count_list s sep = 1"
  shows "Split s sep = [takeWhile (\<lambda>c. c \<noteq> sep) s, tl (dropWhile (\<lambda>c. c \<noteq> sep) s)]"
proof -
  let ?a = "takeWhile (\<lambda>c. c \<noteq> sep) s" and ?b = "tl (dropWhile (\<lambda>c. c \<noteq> sep) s)"
  from assms have "sep \<in> set s" by (metis count_list_0_iff zero_neq_one)
  then have s: "s = ?a @ sep # ?b" by (rule split_at_first)
  have a: "sep \<notin> set ?a" by (auto dest: set_takeWhileD)
  then have "count_list ?a sep = 0" by (simp add: count_list_0_iff)
  moreover have "count_list s sep = count_list ?a sep + count_list (sep # ?b) sep"
    by (subst s) (simp only: count_list_append)
  ultimately have "count_list ?b sep = 0" using assms by simp
  then have "sep \<notin> set ?b" by (simp add: count_list_0_iff)
  then have "Split ?b sep = [?b]" by (rule Split_no_sep)
  with Split_append [OF a, of ?b] have "Split (?a @ sep # ?b) sep = [?a, ?b]" by simp
  with s show ?thesis by simp
qed

lemma parseFields_Cons:
  "parseFields (f # fs) mount =
     (if count_list f (CHR ''='') \<noteq> 1 then Inl MalformedMountString
      else if key_of f = ''type'' then parseFields fs (mount\<lparr>Type := val_of f\<rparr>)
      else if key_of f = ''source'' \<or> key_of f = ''src'' then
        parseFields fs (mount\<lparr>Source := val_of f\<rparr>)
      else if key_of f = ''destination'' \<or> key_of f = ''dst'' then
        parseFields fs (mount\<lparr>Destination := val_of f\<rparr>)
      else if key_of f = ''options'' then
        parseFields fs (mount\<lparr>Options := Split (val_of f) (CHR '':'')\<rparr>)
      else Inl (UnsupportedMountOption (key_of f)))"
proof (cases "count_list f (CHR ''='') = 1")
  case True
  from Split_one [OF this] show ?thesis using True
    by (simp add: key_of_def val_of_def Let_def)
next
  case False
  then show ?thesis by (simp add: length_Split Let_def)
qed

lemma parseFields_key_value:
  assumes "\<forall>f\<in>set fs. key_value f"
  shows "parseFields fs mount =
     Inr \<lparr>Destination = (case last_value {''destination'', ''dst''} fs of
                           None \<Rightarrow> Destination mount | Some v \<Rightarrow> v),
          Type = (case last_value {''type''} fs of None \<Rightarrow> Type mount | Some v \<Rightarrow> v),
          Source = (case last_value {''source'', ''src''} fs of
                      None \<Rightarrow> Source mount | Some v \<Rightarrow> v),
          Options = (case last_value {''options''} fs of
                       None \<Rightarrow> Options mount | Some v \<Rightarrow> Split v (CHR '':''))\<rparr>"
  using assms
proof (induction fs arbitrary: mount)
  case Nil
  show ?case by simp
next
  case (Cons f fs)
  then have kv: "key_value f" and rest: "\<forall>g\<in>set fs. key_value g" by simp_all
  note IH = Cons.IH [OF rest]
  from kv have c: "count_list f (CHR ''='') = 1" and k: "key_of f \<in> recognized"
    by (simp_all add: key_value_def)
  from k consider "key_of f = ''type''" | "key_of f = ''source''" | "key_of f = ''src''"
    | "key_of f = ''destination''" | "key_of f = ''dst''" | "key_of f = ''options''"
    by (auto simp: recognized_def)
  then show ?case
    by cases (simp_all del: parseFields.simps add: parseFields_Cons c IH split: option.splits)
qed

lemma ReadSlice_no_LF: "LF \<notin> set s \<Longrightarrow> ReadSlice s = (s, [], True)"
  by (simp add: ReadSlice_def Let_def dropWhile_eq_Nil_conv takeWhile_eq_all_conv)

lemma readLine_plain:
  assumes "s \<noteq> []" "LF \<notin> set s" "CR \<notin> set s"
  shows "readLine s = (s, False, [])"
proof -
  from assms(1,3) have l: "last s \<noteq> CR" using last_in_set by metis
  have "\<not> (length s \<ge> 2 \<and> s ! (length s - 2) = CR \<and> s ! (length s - 1) = LF)"
  proof
    assume a: "length s \<ge> 2 \<and> s ! (length s - 2) = CR \<and> s ! (length s - 1) = LF"
    then have "2 \<le> length s" by simp
    then have "length s - 2 < length s" by arith
    then have "s ! (length s - 2) \<in> set s" by (rule nth_mem)
    with a assms(3) show False by simp
  qed
  with l assms(1) show ?thesis
    by (auto simp: readLine_def ReadSlice_no_LF [OF assms(2)] Let_def)
qed

lemma lengthNL_no_LF: "LF \<notin> set s \<Longrightarrow> lengthNL s = 0"
  by (cases "s = []") (auto simp: lengthNL_def dest: last_in_set)

lemma takeWhile_sep: "x \<notin> set a \<Longrightarrow> takeWhile (\<lambda>c. c \<noteq> x) (a @ x # b) = a"
  by (induction a) auto

lemma dropWhile_sep: "x \<notin> set a \<Longrightarrow> dropWhile (\<lambda>c. c \<noteq> x) (a @ x # b) = x # b"
  by (induction a) auto

lemma skipEmptyLines_plain:
  assumes "s \<noteq> []" "LF \<notin> set s" "CR \<notin> set s"
  shows "skipEmptyLines s = (s, False, [])"
  using assms by (subst skipEmptyLines.simps) (simp add: readLine_plain lengthNL_no_LF)

lemma parseField_Join:
  assumes "ts \<noteq> []" "\<forall>t\<in>set ts. plain t"
  shows "parseField (Join ts) input dst = Inr (dst @ ts)"
  using assms
proof (induction ts arbitrary: dst rule: Join.induct)
  case 1
  then show ?case by simp
next
  case (2 t)
  then have p: "Comma \<notin> set t" "Quote \<notin> set t" "LF \<notin> set t" by (simp_all add: plain_def)
  from p(2) have h: "t = [] \<or> hd t \<noteq> Quote" by (cases t) auto
  show ?case using h p
    by (subst parseField.simps) (simp add: Let_def lengthNL_no_LF)
next
  case (3 t t' ts)
  then have p: "Comma \<notin> set t" "Quote \<notin> set t" by (simp_all add: plain_def)
  let ?line = "t @ Comma # Join (t' # ts)"
  from p(2) have h: "?line = [] \<or> hd ?line \<noteq> Quote" by (cases t) auto
  from p(1) have tw: "takeWhile (\<lambda>c. c \<noteq> Comma) ?line = t"
    by (rule takeWhile_sep)
  from p(1) have dw: "dropWhile (\<lambda>c. c \<noteq> Comma) ?line = Comma # Join (t' # ts)"
    by (rule dropWhile_sep)
  from 3 have IH: "parseField (Join (t' # ts)) input (dst @ [t]) = Inr ((dst @ [t]) @ t' # ts)"
    by simp
  have "parseField ?line input dst = parseField (Join (t' # ts)) input (dst @ [t])"
    using h p(2) by (subst parseField.simps) (simp only: tw dw Let_def, simp)
  with IH show ?case by simp
qed

lemma set_Join: "set (Join ts) \<subseteq> \<Union> (set ` set ts) \<union> {Comma}"
  by (induction ts rule: Join.induct) auto

lemma csv_Read_Join:
  assumes "ts \<noteq> []" "\<forall>t\<in>set ts. plain t" "Join ts \<noteq> []"
  shows "csv_Read (Join ts) = Inr ts"
proof -
  from assms(2) set_Join [of ts] have "LF \<notin> set (Join ts)" "CR \<notin> set (Join ts)"
    by (auto simp: plain_def)
  from skipEmptyLines_plain [OF assms(3) this] parseField_Join [OF assms(1,2), of "[]" "[]"]
  show ?thesis by (simp add: csv_Read_def)
qed

lemma last_value_unique:
  assumes "\<forall>g\<in>set ts. key_of g \<in> K \<longrightarrow> val_of g = v"
  shows "last_value K ts = (if \<exists>g\<in>set ts. key_of g \<in> K then Some v else None)"
  using assms by (induction ts) (auto split: option.splits)

lemma parseFields_malformed:
  assumes "count_list f (CHR ''='') \<noteq> 1"
    and "\<forall>g\<in>set pre. count_list g (CHR ''='') = 1 \<longrightarrow> key_of g \<in> recognized"
  shows "parseFields (pre @ f # post) mount = Inl MalformedMountString"
  using assms(2)
proof (induction pre arbitrary: mount)
  case Nil
  from assms(1) show ?case by (simp del: parseFields.simps add: parseFields_Cons)
next
  case (Cons g pre)
  then have IH: "\<And>mount. parseFields (pre @ f # post) mount = Inl MalformedMountString"
    by simp
  show ?case
  proof (cases "count_list g (CHR ''='') = 1")
    case False
    then show ?thesis by (simp del: parseFields.simps add: parseFields_Cons)
  next
    case True
    with Cons.prems have "key_of g \<in> recognized" by simp
    then show ?thesis
      by (auto simp del: parseFields.simps simp add: parseFields_Cons IH recognized_def)
  qed
qed

lemma parseFields_fails:
  assumes "count_list f (CHR ''='') \<noteq> 1"
  shows "\<exists>e. parseFields (pre @ f # post) mount = Inl e"
proof (induction pre arbitrary: mount)
  case Nil
  from assms show ?case by (simp del: parseFields.simps add: parseFields_Cons)
next
  case (Cons g pre)
  then show ?case by (simp del: parseFields.simps add: parseFields_Cons)
qed

lemma parseFields_error_kind:
  assumes "count_list f (CHR ''='') \<noteq> 1"
  shows "parseFields (pre @ f # post) mount = Inl MalformedMountString \<or>
         (\<exists>g\<in>set pre. count_list g (CHR ''='') = 1 \<and> key_of g \<notin> recognized \<and>
            parseFields (pre @ f # post) mount = Inl (UnsupportedMountOption (key_of g)))"
proof (induction pre arbitrary: mount)
  case Nil
  from assms show ?case by (simp del: parseFields.simps add: parseFields_Cons)
next
  case (Cons g pre)
  show ?case
  proof (cases "count_list g (CHR ''='') = 1")
    case False
    then show ?thesis by (simp del: parseFields.simps add: parseFields_Cons)
  next
    case one: True
    show ?thesis
    proof (cases "key_of g \<in> recognized")
      case False
      with one have "parseFields ((g # pre) @ f # post) mount =
                     Inl (UnsupportedMountOption (key_of g))"
        by (simp del: parseFields.simps add: parseFields_Cons recognized_def)
      with one False show ?thesis by auto
    next
      case True
      then obtain mount' where
        "parseFields ((g # pre) @ f # post) mount = parseFields (pre @ f # post) mount'"
        using one
        by (auto simp del: parseFields.simps simp add: parseFields_Cons recognized_def)
      with Cons.IH [of mount'] show ?thesis by auto
    qed
  qed
qed

lemma Join_not_Nil: "ts \<noteq> [] \<Longrightarrow> \<forall>t\<in>set ts. t \<noteq> [] \<Longrightarrow> Join ts \<noteq> []"
  by (induction ts rule: Join.induct) auto

lemma csv_type_a_type_b: "csv_Read ''type=a,type=b'' = Inr [''type=a'', ''type=b'']"
  by (simp add: csv_Read_def readLine_def ReadSlice_def lengthNL_def Let_def)

lemma csv_options_a_b: "csv_Read ''options=a=b'' = Inr [''options=a=b'']"
  by (simp add: csv_Read_def readLine_def ReadSlice_def lengthNL_def Let_def)

lemma csv_type_bind_options_a_b:
  "csv_Read ''type=bind,options=a=b'' = Inr [''type=bind'', ''options=a=b'']"
  by (simp add: csv_Read_def readLine_def ReadSlice_def lengthNL_def Let_def)

lemma csv_foo_bar_typeT: "csv_Read ''foo=bar,typeT'' = Inr [''foo=bar'', ''typeT'']"
  by (simp add: csv_Read_def readLine_def ReadSlice_def lengthNL_def Let_def)

lemma csv_type_bind_src: "csv_Read ''type=bind,src'' = Inr [''type=bind'', ''src'']"
  by (simp add: csv_Read_def readLine_def ReadSlice_def lengthNL_def Let_def)

subsection \<open>Claims about parseMountFlag\<close>

text \<open>
  Counterexample to claim C4 as stated. The mount string \<^verbatim>\<open>type=a,type=b\<close> has the
  recognized key \<^verbatim>\<open>type\<close> twice, and it parses successfully: the loop has no check for
  a repeated key, and the second assignment overwrites the first.
\<close>

theorem duplicate_key_counterexample:
  "csv_Read ''type=a,type=b'' = Inr [''type=a'', ''type=b''] \<and>
   key_of ''type=a'' = ''type'' \<and> key_of ''type=b'' = ''type'' \<and>
   parseMountFlag ''type=a,type=b'' =
     Inr \<lparr>Destination = [], Type = ''b'', Source = [], Options = []\<rparr>"
  by (simp add: parseMountFlag_def csv_type_a_type_b key_of_def Mount_zero_def Let_def)

text \<open>
  Claim C4, amended. A recognized key may appear more than once. Whenever every token of
  the mount string is \<^verbatim>\<open>key=value\<close> with a recognized key, repeated or not, parsing
  succeeds, and each field of the resulting mount has the value of the last token that
  carries its key (\<^verbatim>\<open>source\<close> and \<^verbatim>\<open>src\<close> name one field, as do \<^verbatim>\<open>destination\<close> and
  \<^verbatim>\<open>dst\<close>); a field whose key does not appear keeps its zero value.
\<close>

theorem duplicate_keys_last_wins:
  assumes "csv_Read m = Inr fs" and "\<forall>f\<in>set fs. key_value f"
  shows "parseMountFlag m =
     Inr \<lparr>Destination = (case last_value {''destination'', ''dst''} fs of
                           None \<Rightarrow> [] | Some v \<Rightarrow> v),
          Type = (case last_value {''type''} fs of None \<Rightarrow> [] | Some v \<Rightarrow> v),
          Source = (case last_value {''source'', ''src''} fs of None \<Rightarrow> [] | Some v \<Rightarrow> v),
          Options = (case last_value {''options''} fs of
                       None \<Rightarrow> [] | Some v \<Rightarrow> Split v (CHR '':''))\<rparr>"
  using assms(1) parseFields_key_value [OF assms(2), of Mount_zero]
  by (simp add: parseMountFlag_def Mount_zero_def split: option.splits)

theorem duplicate_keys_last_wins_witness:
  "csv_Read ''type=a,type=b'' = Inr [''type=a'', ''type=b''] \<and>
   key_value ''type=a'' \<and> key_value ''type=b'' \<and>
   parseMountFlag ''type=a,type=b'' =
     Inr \<lparr>Destination = [], Type = ''b'', Source = [], Options = []\<rparr>"
proof -
  have h: "csv_Read ''type=a,type=b'' = Inr [''type=a'', ''type=b'']"
    "\<forall>f\<in>set [''type=a'', ''type=b'']. key_value f"
    by (simp_all add: csv_type_a_type_b key_value_def key_of_def recognized_def)
  from duplicate_keys_last_wins [OF h] h show ?thesis
    by (simp add: key_of_def val_of_def)
qed

text \<open>
  Claim C5. For all strings \<open>T\<close>, \<open>S\<close>, \<open>D\<close>, \<open>o1\<close>, \<open>o2\<close> that form a valid mount string
  \<^verbatim>\<open>type=T,source=S,destination=D,options=o1:o2\<close> (none of them holds a comma, a double
  quote, a line break or \<^verbatim>\<open>=\<close>, and \<open>o1\<close>, \<open>o2\<close> hold no colon), parsing succeeds with
  type \<open>T\<close>, source \<open>S\<close>, destination \<open>D\<close> and options \<open>[o1, o2]\<close>, and parsing the four
  tokens joined in any other order gives the same mount.
\<close>

theorem mount_string_any_order:
  assumes "value_ok T" and "value_ok S" and "value_ok D" and "value_ok o1" and "value_ok o2"
    and "CHR '':'' \<notin> set o1" and "CHR '':'' \<notin> set o2"
  shows "parseMountFlag
           (''type='' @ T @ '',source='' @ S @ '',destination='' @ D @
            '',options='' @ o1 @ '':'' @ o2) =
           Inr \<lparr>Destination = D, Type = T, Source = S, Options = [o1, o2]\<rparr> \<and>
         (\<forall>ts. mset ts = mset [''type='' @ T, ''source='' @ S, ''destination='' @ D,
                                ''options='' @ o1 @ '':'' @ o2] \<longrightarrow>
            parseMountFlag (Join ts) =
              Inr \<lparr>Destination = D, Type = T, Source = S, Options = [o1, o2]\<rparr>)"
proof -
  let ?t1 = "''type='' @ T" and ?t2 = "''source='' @ S" and ?t3 = "''destination='' @ D"
    and ?t4 = "''options='' @ o1 @ '':'' @ o2"
  let ?M = "\<lparr>Destination = D, Type = T, Source = S, Options = [o1, o2]\<rparr>"
  from assms have ok: "plain T" "plain S" "plain D" "plain o1" "plain o2"
    "CHR ''='' \<notin> set T" "CHR ''='' \<notin> set S" "CHR ''='' \<notin> set D"
    "CHR ''='' \<notin> set o1" "CHR ''='' \<notin> set o2"
    by (simp_all add: value_ok_def)
  have k: "key_of ?t1 = ''type''" "key_of ?t2 = ''source''" "key_of ?t3 = ''destination''"
    "key_of ?t4 = ''options''"
    by (simp_all add: key_of_def)
  have v: "val_of ?t1 = T" "val_of ?t2 = S" "val_of ?t3 = D" "val_of ?t4 = o1 @ '':'' @ o2"
    by (simp_all add: val_of_def)
  have c: "count_list ?t1 (CHR ''='') = 1" "count_list ?t2 (CHR ''='') = 1"
    "count_list ?t3 (CHR ''='') = 1" "count_list ?t4 (CHR ''='') = 1"
    using ok by (simp_all add: count_list_append count_list_0_iff)
  have p: "plain ?t1" "plain ?t2" "plain ?t3" "plain ?t4"
    using ok by (simp_all add: plain_def)
  have opts: "Split (o1 @ '':'' @ o2) (CHR '':'') = [o1, o2]"
    using Split_append [OF assms(6), of o2] Split_no_sep [OF assms(7)] by simp
  have any: "parseMountFlag (Join ts) = Inr ?M" if m: "mset ts = mset [?t1, ?t2, ?t3, ?t4]" for ts
  proof -
    from mset_eq_setD [OF m] have st: "set ts = {?t1, ?t2, ?t3, ?t4}" by simp
    from m have ne: "ts \<noteq> []" by auto
    from st p have pl: "\<forall>t\<in>set ts. plain t" by auto
    from st have "\<forall>t\<in>set ts. t \<noteq> []" by auto
    from csv_Read_Join [OF ne pl Join_not_Nil [OF ne this]]
    have rd: "csv_Read (Join ts) = Inr ts" .
    from st k c have kv: "\<forall>t\<in>set ts. key_value t"
      by (auto simp: key_value_def recognized_def)
    have l1: "last_value {''type''} ts = Some T"
      using last_value_unique [of ts "{''type''}" T] st k v by auto
    have l2: "last_value {''source'', ''src''} ts = Some S"
      using last_value_unique [of ts "{''source'', ''src''}" S] st k v by auto
    have l3: "last_value {''destination'', ''dst''} ts = Some D"
      using last_value_unique [of ts "{''destination'', ''dst''}" D] st k v by auto
    have l4: "last_value {''options''} ts = Some (o1 @ '':'' @ o2)"
      using last_value_unique [of ts "{''options''}" "o1 @ '':'' @ o2"] st k v by auto
    from parseFields_key_value [OF kv, of Mount_zero] rd show ?thesis
      by (simp add: parseMountFlag_def l1 l2 l3 l4 opts del: append.simps)
  qed
  have "Join [?t1, ?t2, ?t3, ?t4] =
        ''type='' @ T @ '',source='' @ S @ '',destination='' @ D @ '',options='' @ o1 @ '':'' @ o2"
    by simp
  with any [of "[?t1, ?t2, ?t3, ?t4]"] any show ?thesis by simp
qed

theorem mount_string_any_order_witness:
  "value_ok ''foo'' \<and> value_ok ''/path'' \<and> value_ok ''/target'' \<and> value_ok ''rbind'' \<and>
   value_ok ''rw'' \<and> CHR '':'' \<notin> set ''rbind'' \<and> CHR '':'' \<notin> set ''rw'' \<and>
   parseMountFlag ''type=foo,source=/path,destination=/target,options=rbind:rw'' =
     Inr \<lparr>Destination = ''/target'', Type = ''foo'', Source = ''/path'',
          Options = [''rbind'', ''rw'']\<rparr> \<and>
   mset [''options=rbind:rw'', ''destination=/target'', ''type=foo'', ''source=/path''] =
     mset [''type=foo'', ''source=/path'', ''destination=/target'', ''options=rbind:rw''] \<and>
   parseMountFlag ''options=rbind:rw,destination=/target,type=foo,source=/path'' =
     Inr \<lparr>Destination = ''/target'', Type = ''foo'', Source = ''/path'',
          Options = [''rbind'', ''rw'']\<rparr>"
proof -
  have h: "value_ok ''foo''" "value_ok ''/path''" "value_ok ''/target''" "value_ok ''rbind''"
    "value_ok ''rw''" "CHR '':'' \<notin> set ''rbind''" "CHR '':'' \<notin> set ''rw''"
    by (simp_all add: value_ok_def plain_def)
  have m: "mset [''options=rbind:rw'', ''destination=/target'', ''type=foo'', ''source=/path''] =
     mset [''type=foo'', ''source=/path'', ''destination=/target'', ''options=rbind:rw'']"
    by (simp add: add_mset_commute)
  note t = mount_string_any_order [OF h]
  from t have a: "parseMountFlag ''type=foo,source=/path,destination=/target,options=rbind:rw'' =
     Inr \<lparr>Destination = ''/target'', Type = ''foo'', Source = ''/path'',
          Options = [''rbind'', ''rw'']\<rparr>"
    by simp
  from t have "\<forall>ts. mset ts =
        mset [''type=foo'', ''source=/path'', ''destination=/target'', ''options=rbind:rw''] \<longrightarrow>
      parseMountFlag (Join ts) =
        Inr \<lparr>Destination = ''/target'', Type = ''foo'', Source = ''/path'',
             Options = [''rbind'', ''rw'']\<rparr>"
    by simp
  from this [rule_format, OF m]
  have b: "parseMountFlag ''options=rbind:rw,destination=/target,type=foo,source=/path'' =
     Inr \<lparr>Destination = ''/target'', Type = ''foo'', Source = ''/path'',
          Options = [''rbind'', ''rw'']\<rparr>"
    by simp
  from h m a b show ?thesis by blast
qed

text \<open>
  Counterexample to claim C6 as stated. The token \<^verbatim>\<open>options=a=b\<close> does not parse:
  \<^verbatim>\<open>strings.Split(field, "=")\<close> splits on every \<^verbatim>\<open>=\<close>, the result has three parts, and
  the check \<^verbatim>\<open>len(v) != 2\<close> at line 64 returns the error.
\<close>

theorem value_with_equals_counterexample:
  "csv_Read ''options=a=b'' = Inr [''options=a=b''] \<and>
   parseMountFlag ''options=a=b'' = Inl MalformedMountString"
  by (simp add: parseMountFlag_def csv_options_a_b Let_def)

text \<open>
  Claim C6, amended. The parser splits each token on every \<^verbatim>\<open>=\<close>, into one part more
  than the token has \<^verbatim>\<open>=\<close> characters. A token whose value itself contains \<^verbatim>\<open>=\<close> (two
  or more \<^verbatim>\<open>=\<close> in the token, as in \<^verbatim>\<open>options=a=b\<close>) therefore makes parsing fail with
  the error ``invalid mount specification: expected key=val'', provided every token
  before it that has exactly one \<^verbatim>\<open>=\<close> has a recognized key.
\<close>

theorem value_with_equals_rejected:
  assumes "csv_Read m = Inr (pre @ f # post)"
    and "\<forall>g\<in>set pre. count_list g (CHR ''='') = 1 \<longrightarrow> key_of g \<in> recognized"
    and "2 \<le> count_list f (CHR ''='')"
  shows "length (Split f (CHR ''='')) = Suc (count_list f (CHR ''='')) \<and>
         parseMountFlag m = Inl MalformedMountString"
proof -
  from assms(3) have "count_list f (CHR ''='') \<noteq> 1" by simp
  from parseFields_malformed [OF this assms(2), of post Mount_zero] assms(1)
  show ?thesis by (simp add: parseMountFlag_def length_Split)
qed

theorem value_with_equals_rejected_witness:
  "csv_Read ''type=bind,options=a=b'' = Inr ([''type=bind''] @ ''options=a=b'' # []) \<and>
   count_list ''type=bind'' (CHR ''='') = 1 \<and> key_of ''type=bind'' \<in> recognized \<and>
   2 \<le> count_list ''options=a=b'' (CHR ''='') \<and>
   length (Split ''options=a=b'' (CHR ''='')) = 3 \<and>
   parseMountFlag ''type=bind,options=a=b'' = Inl MalformedMountString"
proof -
  have h: "csv_Read ''type=bind,options=a=b'' = Inr ([''type=bind''] @ ''options=a=b'' # [])"
    "\<forall>g\<in>set [''type=bind'']. count_list g (CHR ''='') = 1 \<longrightarrow> key_of g \<in> recognized"
    "2 \<le> count_list ''options=a=b'' (CHR ''='')"
    by (simp_all add: csv_type_bind_options_a_b key_of_def recognized_def)
  have k: "count_list ''type=bind'' (CHR ''='') = 1" "key_of ''type=bind'' \<in> recognized"
    by (simp_all add: key_of_def recognized_def)
  from value_with_equals_rejected [OF h] h(1,3) k show ?thesis by simp
qed

text \<open>
  Counterexample to claim C9 as stated. The mount string \<^verbatim>\<open>foo=bar,typeT\<close> contains the
  token \<^verbatim>\<open>typeT\<close> without \<^verbatim>\<open>=\<close>, but the loop stops at the first token: the error is
  ``mount option "foo" not supported'', not the malformed-string error.
\<close>

theorem token_without_equals_counterexample:
  "csv_Read ''foo=bar,typeT'' = Inr [''foo=bar'', ''typeT''] \<and>
   CHR ''='' \<notin> set ''typeT'' \<and>
   parseMountFlag ''foo=bar,typeT'' = Inl (UnsupportedMountOption ''foo'') \<and>
   parseMountFlag ''foo=bar,typeT'' \<noteq> Inl MalformedMountString"
  by (simp add: parseMountFlag_def csv_foo_bar_typeT Let_def)

text \<open>
  Claim C9, amended. For every mount string containing a token with no \<^verbatim>\<open>=\<close>, parsing
  fails and produces no mount. The error is either ``invalid mount specification:
  expected key=val'' or the ``mount option ... not supported'' error for the key of an
  earlier token that has exactly one \<^verbatim>\<open>=\<close> and an unrecognized key; it is the former
  whenever every token before the \<^verbatim>\<open>=\<close>-free one that has exactly one \<^verbatim>\<open>=\<close> has a
  recognized key.
\<close>

theorem token_without_equals_fails:
  assumes "csv_Read m = Inr (pre @ f # post)" and "CHR ''='' \<notin> set f"
  shows "(\<exists>e. parseMountFlag m = Inl e) \<and>
         (parseMountFlag m = Inl MalformedMountString \<or>
          (\<exists>g\<in>set pre. count_list g (CHR ''='') = 1 \<and> key_of g \<notin> recognized \<and>
             parseMountFlag m = Inl (UnsupportedMountOption (key_of g)))) \<and>
         ((\<forall>g\<in>set pre. count_list g (CHR ''='') = 1 \<longrightarrow> key_of g \<in> recognized) \<longrightarrow>
          parseMountFlag m = Inl MalformedMountString)"
proof -
  from assms(2) have c: "count_list f (CHR ''='') \<noteq> 1" by (simp add: count_list_0_iff)
  from assms(1) have pm: "parseMountFlag m = parseFields (pre @ f # post) Mount_zero"
    by (simp add: parseMountFlag_def)
  from parseFields_fails [OF c, of pre post Mount_zero]
  have fails: "\<exists>e. parseMountFlag m = Inl e" by (simp only: pm)
  from parseFields_error_kind [OF c, of pre post Mount_zero]
  have kind: "parseMountFlag m = Inl MalformedMountString \<or>
          (\<exists>g\<in>set pre. count_list g (CHR ''='') = 1 \<and> key_of g \<notin> recognized \<and>
             parseMountFlag m = Inl (UnsupportedMountOption (key_of g)))"
    by (simp only: pm)
  have "parseMountFlag m = Inl MalformedMountString"
    if "\<forall>g\<in>set pre. count_list g (CHR ''='') = 1 \<longrightarrow> key_of g \<in> recognized"
    using parseFields_malformed [OF c that, of post Mount_zero] by (simp only: pm)
  with fails kind show ?thesis by blast
qed

theorem token_without_equals_fails_witness:
  "csv_Read ''type=bind,src'' = Inr ([''type=bind''] @ ''src'' # []) \<and>
   CHR ''='' \<notin> set ''src'' \<and>
   count_list ''type=bind'' (CHR ''='') = 1 \<and> key_of ''type=bind'' \<in> recognized \<and>
   parseMountFlag ''type=bind,src'' = Inl MalformedMountString"
proof -
  have h: "csv_Read ''type=bind,src'' = Inr ([''type=bind''] @ ''src'' # [])"
    "CHR ''='' \<notin> set ''src''"
    by (simp_all add: csv_type_bind_src)
  have r: "\<forall>g\<in>set [''type=bind'']. count_list g (CHR ''='') = 1 \<longrightarrow> key_of g \<in> recognized"
    by (simp add: key_of_def recognized_def)
  have k: "count_list ''type=bind'' (CHR ''='') = 1" "key_of ''type=bind'' \<in> recognized"
    by (simp_all add: key_of_def recognized_def)
  from token_without_equals_fails [OF h] r h k show ?thesis by blast
qed

end
